theory Spec2Isabelle
  imports Main
begin

section \<open>Values read from \<^verbatim>\<open>data.json\<close>\<close>

text \<open>
  \<^verbatim>\<open>json.load\<close> returns Python values: \<^verbatim>\<open>None\<close>, a bool, an int, a float, a str,
  a list or a dict with string keys. The program never computes with a float, it only
  moves it, so the float type is a parameter \<open>'f\<close>. A dict is an association list in
  insertion order; \<^verbatim>\<open>json.load\<close> yields dicts whose keys are distinct.
\<close>

datatype 'f json =
    JNull
  | JBool bool
  | JInt int
  | JFloat 'f
  | JStr string
  | JArr "'f json list"
  | JObj "(string \<times> 'f json) list"

datatype pykey = IntKey int | StrKey string

text \<open>
  The exceptions that can leave \<^verbatim>\<open>seed_data\<close>. \<open>External\<close> stands for whatever the
  file system, the JSON parser or the database client raises.
\<close>

datatype error =
    IndexError
  | KeyError pykey
  | TypeError
  | AttributeError
  | ValidationError
  | External string

subsection \<open>The built-in operations the program applies to the loaded value\<close>

text \<open>\<^verbatim>\<open>data[0]\<close>\<close>

fun subscript_zero :: "'f json \<Rightarrow> error + 'f json" where
  "subscript_zero (JArr []) = Inl IndexError"
| "subscript_zero (JArr (x # xs)) = Inr x"
| "subscript_zero (JStr []) = Inl IndexError"
| "subscript_zero (JStr (c # cs)) = Inr (JStr [c])"
| "subscript_zero (JObj kvs) = Inl (KeyError (IntKey 0))"
| "subscript_zero JNull = Inl TypeError"
| "subscript_zero (JBool b) = Inl TypeError"
| "subscript_zero (JInt i) = Inl TypeError"
| "subscript_zero (JFloat x) = Inl TypeError"

text \<open>\<^verbatim>\<open>x['vectors']\<close>: only a dict can be subscripted with a string.\<close>

fun subscript_key :: "string \<Rightarrow> 'f json \<Rightarrow> error + 'f json" where
  "subscript_key k (JObj kvs) =
     (case map_of kvs k of None \<Rightarrow> Inl (KeyError (StrKey k)) | Some v \<Rightarrow> Inr v)"
| "subscript_key k JNull = Inl TypeError"
| "subscript_key k (JBool b) = Inl TypeError"
| "subscript_key k (JInt i) = Inl TypeError"
| "subscript_key k (JFloat x) = Inl TypeError"
| "subscript_key k (JStr s) = Inl TypeError"
| "subscript_key k (JArr xs) = Inl TypeError"

text \<open>\<^verbatim>\<open>len(v)\<close>: defined on lists, strings and dicts.\<close>

fun py_len :: "'f json \<Rightarrow> error + nat" where
  "py_len (JArr xs) = Inr (length xs)"
| "py_len (JStr s) = Inr (length s)"
| "py_len (JObj kvs) = Inr (length kvs)"
| "py_len JNull = Inl TypeError"
| "py_len (JBool b) = Inl TypeError"
| "py_len (JInt i) = Inl TypeError"
| "py_len (JFloat x) = Inl TypeError"

text \<open>
  \<^verbatim>\<open>item.pop(k)\<close> returns the value and the item as it is after the removal. A list has
  a \<^verbatim>\<open>pop\<close> that rejects a string argument; the other values have no \<^verbatim>\<open>pop\<close>.
\<close>

fun py_pop :: "string \<Rightarrow> 'f json \<Rightarrow> error + ('f json \<times> 'f json)" where
  "py_pop k (JObj kvs) =
     (case map_of kvs k of
        None \<Rightarrow> Inl (KeyError (StrKey k))
      | Some v \<Rightarrow> Inr (v, JObj (filter (\<lambda>kv. fst kv \<noteq> k) kvs)))"
| "py_pop k (JArr xs) = Inl TypeError"
| "py_pop k JNull = Inl AttributeError"
| "py_pop k (JBool b) = Inl AttributeError"
| "py_pop k (JInt i) = Inl AttributeError"
| "py_pop k (JFloat x) = Inl AttributeError"
| "py_pop k (JStr s) = Inl AttributeError"

text \<open>\<^verbatim>\<open>for item in data\<close>: the items a value yields when iterated.\<close>

fun py_iter :: "'f json \<Rightarrow> error + 'f json list" where
  "py_iter (JArr xs) = Inr xs"
| "py_iter (JStr s) = Inr (map (\<lambda>c. JStr [c]) s)"
| "py_iter (JObj kvs) = Inr (map (\<lambda>kv. JStr (fst kv)) kvs)"
| "py_iter JNull = Inl TypeError"
| "py_iter (JBool b) = Inl TypeError"
| "py_iter (JInt i) = Inl TypeError"
| "py_iter (JFloat x) = Inl TypeError"

section \<open>Points, client calls and the environment\<close>

record 'f point =
  pid :: "'f json"
  vector :: "'f json"
  payload :: "'f json"

datatype distance = Cosine | Euclid | Dot | Manhattan

datatype line =
    Attempting
  | Connected
  | Failed string
  | Done nat

text \<open>
  What the run does to the outside, in order: lines printed, sleeps, and the calls made
  on the database client with their arguments.
\<close>

datatype 'f event =
    Print line
  | Sleep nat
  | GetCollections
  | CollectionExists string
  | CreateCollection string nat distance
  | Upsert string "'f point list"

text \<open>
  What the outside answers. \<open>probe n\<close> is the outcome of the \<open>n\<close>-th call of
  \<^verbatim>\<open>get_collections\<close> (\<open>Some msg\<close>: it raises an exception printed as \<open>msg\<close>);
  \<open>load_json\<close> is the outcome of opening and parsing the file; \<open>accepts\<close> is the
  validation \<^verbatim>\<open>PointStruct\<close> applies to an identifier and a vector, and \<open>convert\<close> the
  conversion it applies to a vector it accepts (it turns the integers of a list into
  floats, for one); the three replies are those of \<^verbatim>\<open>collection_exists\<close>,
  \<^verbatim>\<open>create_collection\<close> and \<^verbatim>\<open>upsert\<close>.
\<close>

record 'f env =
  probe :: "nat \<Rightarrow> string option"
  load_json :: "error + 'f json"
  exists_reply :: "error + bool"
  create_reply :: "error option"
  accepts :: "'f json \<Rightarrow> 'f json \<Rightarrow> bool"
  convert :: "'f json \<Rightarrow> 'f json"
  upsert_reply :: "error option"

definition COLLECTION_NAME :: string where
  "COLLECTION_NAME = ''nt-cctv-vehicles''"

section \<open>\<^verbatim>\<open>seed_data\<close>\<close>

subsection \<open>The connection loop\<close>

text \<open>
  \<^verbatim>\<open>while not connected\<close>: \<open>n\<close> counts the calls of \<^verbatim>\<open>get_collections\<close> made so far.
  The loop has no bound, so it is a partial function: \<open>None\<close> is a run that never leaves
  the loop.
\<close>

partial_function (option) connect_loop ::
  "(nat \<Rightarrow> string option) \<Rightarrow> bool \<Rightarrow> nat \<Rightarrow> 'f event list \<Rightarrow> (nat \<times> 'f event list) option"
where
  "connect_loop pr connected n log =
     (if \<not> connected then
        (case pr n of
           None \<Rightarrow> connect_loop pr True (Suc n) (log @ [GetCollections, Print Connected])
         | Some e \<Rightarrow>
             connect_loop pr connected (Suc n)
               (log @ [GetCollections, Print (Failed e), Sleep 3]))
      else Some (n, log))"

declare connect_loop.simps [code]

subsection \<open>Collection setup\<close>

text \<open>\<^verbatim>\<open>len(data[0]['vectors'])\<close>\<close>

definition first_vector_size :: "'f json \<Rightarrow> error + nat" where
  "first_vector_size data =
     (case subscript_zero data of
        Inl e \<Rightarrow> Inl e
      | Inr r \<Rightarrow>
          (case subscript_key ''vectors'' r of
             Inl e \<Rightarrow> Inl e
           | Inr v \<Rightarrow> py_len v))"

definition ensure_collection ::
  "'f env \<Rightarrow> nat \<Rightarrow> 'f event list \<Rightarrow> 'f event list \<times> error option" where
  "ensure_collection env vector_size log =
     (let log1 = log @ [CollectionExists COLLECTION_NAME] in
      case exists_reply env of
        Inl e \<Rightarrow> (log1, Some e)
      | Inr True \<Rightarrow> (log1, None)
      | Inr False \<Rightarrow>
          (log1 @ [CreateCollection COLLECTION_NAME vector_size Cosine], create_reply env))"

subsection \<open>Batch upload\<close>

text \<open>
  \<^verbatim>\<open>PointStruct\<close> is the client library's model class. It holds the identifier and the
  payload it is given. A vector that is a list of floats it holds as it is; any other
  vector it accepts is held as the library converts it, which is the parameter \<open>cv\<close>.
\<close>

fun is_float :: "'f json \<Rightarrow> bool" where
  "is_float (JFloat x) = True"
| "is_float JNull = False"
| "is_float (JBool b) = False"
| "is_float (JInt i) = False"
| "is_float (JStr s) = False"
| "is_float (JArr xs) = False"
| "is_float (JObj kvs) = False"

fun float_list :: "'f json \<Rightarrow> bool" where
  "float_list (JArr xs) = list_all is_float xs"
| "float_list JNull = False"
| "float_list (JBool b) = False"
| "float_list (JInt i) = False"
| "float_list (JFloat x) = False"
| "float_list (JStr s) = False"
| "float_list (JObj kvs) = False"

definition held_vector :: "('f json \<Rightarrow> 'f json) \<Rightarrow> 'f json \<Rightarrow> 'f json" where
  "held_vector cv v = (if float_list v then v else cv v)"

text \<open>
  One element of the comprehension. The keyword arguments are evaluated left to right:
  \<^verbatim>\<open>item.pop("id")\<close>, then \<^verbatim>\<open>item.pop("vectors")\<close>, then \<^verbatim>\<open>item\<close> itself, which by
  then has lost both fields. The validation of the identifier and the vector is the
  parameter \<open>ok\<close>.
\<close>

definition point_struct ::
  "('f json \<Rightarrow> 'f json \<Rightarrow> bool) \<Rightarrow> ('f json \<Rightarrow> 'f json) \<Rightarrow> 'f json \<Rightarrow> error + 'f point" where
  "point_struct ok cv item =
     (case py_pop ''id'' item of
        Inl e \<Rightarrow> Inl e
      | Inr (i, item1) \<Rightarrow>
          (case py_pop ''vectors'' item1 of
             Inl e \<Rightarrow> Inl e
           | Inr (v, item2) \<Rightarrow>
               if ok i v then Inr \<lparr>pid = i, vector = held_vector cv v, payload = item2\<rparr>
               else Inl ValidationError))"

fun build_points ::
  "('f json \<Rightarrow> 'f json \<Rightarrow> bool) \<Rightarrow> ('f json \<Rightarrow> 'f json) \<Rightarrow> 'f json list
     \<Rightarrow> error + 'f point list" where
  "build_points ok cv [] = Inr []"
| "build_points ok cv (item # items) =
     (case point_struct ok cv item of
        Inl e \<Rightarrow> Inl e
      | Inr p \<Rightarrow>
          (case build_points ok cv items of
             Inl e \<Rightarrow> Inl e
           | Inr ps \<Rightarrow> Inr (p # ps)))"

definition batch_upload ::
  "'f env \<Rightarrow> 'f json \<Rightarrow> 'f event list \<Rightarrow> 'f event list \<times> (error + unit)" where
  "batch_upload env data log =
     (case py_iter data of
        Inl e \<Rightarrow> (log, Inl e)
      | Inr items \<Rightarrow>
          (case build_points (accepts env) (convert env) items of
             Inl e \<Rightarrow> (log, Inl e)
           | Inr points \<Rightarrow>
               (case upsert_reply env of
                  Some e \<Rightarrow> (log @ [Upsert COLLECTION_NAME points], Inl e)
                | None \<Rightarrow>
                    (log @ [Upsert COLLECTION_NAME points, Print (Done (length points))],
                     Inr ()))))"

subsection \<open>The whole run\<close>

text \<open>The part of \<^verbatim>\<open>seed_data\<close> after the connection loop.\<close>

definition load_and_seed :: "'f env \<Rightarrow> 'f event list \<Rightarrow> 'f event list \<times> (error + unit)" where
  "load_and_seed env log =
     (case load_json env of
        Inl e \<Rightarrow> (log, Inl e)
      | Inr data \<Rightarrow>
          (case first_vector_size data of
             Inl e \<Rightarrow> (log, Inl e)
           | Inr vector_size \<Rightarrow>
               (case ensure_collection env vector_size log of
                  (log1, Some e) \<Rightarrow> (log1, Inl e)
                | (log1, None) \<Rightarrow> batch_upload env data log1)))"

text \<open>
  The result of a run: \<open>None\<close> when it never leaves the connection loop, otherwise the
  events in order and either the exception that ended the run or normal completion.
\<close>

definition seed_data :: "'f env \<Rightarrow> ('f event list \<times> (error + unit)) option" where
  "seed_data env =
     (case connect_loop (probe env) False 0 [Print Attempting] of
        None \<Rightarrow> None
      | Some (n, log) \<Rightarrow> Some (load_and_seed env log))"

section \<open>Observations on a run\<close>

text \<open>The calls that can change the database, and the calls made after the connection loop.\<close>

fun is_create :: "'f event \<Rightarrow> bool" where
  "is_create (CreateCollection nm sz d) = True"
| "is_create (Print l) = False"
| "is_create (Sleep t) = False"
| "is_create GetCollections = False"
| "is_create (CollectionExists nm) = False"
| "is_create (Upsert nm ps) = False"

fun is_upsert :: "'f event \<Rightarrow> bool" where
  "is_upsert (Upsert nm ps) = True"
| "is_upsert (Print l) = False"
| "is_upsert (Sleep t) = False"
| "is_upsert GetCollections = False"
| "is_upsert (CollectionExists nm) = False"
| "is_upsert (CreateCollection nm sz d) = False"

fun seeding_call :: "'f event \<Rightarrow> bool" where
  "seeding_call (CollectionExists nm) = True"
| "seeding_call (CreateCollection nm sz d) = True"
| "seeding_call (Upsert nm ps) = True"
| "seeding_call (Print l) = False"
| "seeding_call (Sleep t) = False"
| "seeding_call GetCollections = False"

fun is_done :: "'f event \<Rightarrow> bool" where
  "is_done (Print (Done k)) = True"
| "is_done (Print Attempting) = False"
| "is_done (Print Connected) = False"
| "is_done (Print (Failed e)) = False"
| "is_done (Sleep t) = False"
| "is_done GetCollections = False"
| "is_done (CollectionExists nm) = False"
| "is_done (CreateCollection nm sz d) = False"
| "is_done (Upsert nm ps) = False"

text \<open>
  The \<^verbatim>\<open>id\<close> and \<^verbatim>\<open>vectors\<close> values of a record, when it is a dict that has both.
\<close>

fun record_fields :: "'f json \<Rightarrow> ('f json \<times> 'f json) option" where
  "record_fields (JObj kvs) =
     (case map_of kvs ''id'' of
        None \<Rightarrow> None
      | Some i \<Rightarrow>
          (case map_of kvs ''vectors'' of
             None \<Rightarrow> None
           | Some v \<Rightarrow> Some (i, v)))"
| "record_fields JNull = None"
| "record_fields (JBool b) = None"
| "record_fields (JInt i) = None"
| "record_fields (JFloat x) = None"
| "record_fields (JStr s) = None"
| "record_fields (JArr xs) = None"

text \<open>
  Two dicts with the same fields (Python's \<^verbatim>\<open>==\<close> on dicts does not look at the order of
  the keys), two records that are equal, and two points that are equal.
\<close>

definition same_fields :: "(string \<times> 'v) list \<Rightarrow> (string \<times> 'v) list \<Rightarrow> bool" where
  "same_fields a b = (\<forall>k\<in>set (map fst a @ map fst b). map_of a k = map_of b k)"

fun same_record :: "'f json \<Rightarrow> 'f json \<Rightarrow> bool" where
  "same_record (JObj a) (JObj b) = same_fields a b"
| "same_record x y = (x = y)"

definition same_point :: "'f point \<Rightarrow> 'f point \<Rightarrow> bool" where
  "same_point p q =
     (pid p = pid q \<and> vector p = vector q \<and> same_record (payload p) (payload q))"

text \<open>
  An InputRecord of the data model: a dict with an \<^verbatim>\<open>id\<close> and a \<^verbatim>\<open>vectors\<close> list of
  length \<open>d\<close>, whose identifier and vector \<^verbatim>\<open>PointStruct\<close> accepts.
\<close>

definition input_record :: "('f json \<Rightarrow> 'f json \<Rightarrow> bool) \<Rightarrow> nat \<Rightarrow> 'f json \<Rightarrow> bool" where
  "input_record ok d r =
     (case record_fields r of
        Some (i, JArr xs) \<Rightarrow> length xs = d \<and> ok i (JArr xs)
      | _ \<Rightarrow> False)"

subsection \<open>Concrete environments\<close>

text \<open>
  The two records of the specification's example; a float is written as its literal.
\<close>

definition rec_A :: "string json" where
  "rec_A = JObj [(''id'', JInt 1), (''vectors'', JArr [JFloat ''0.1'', JFloat ''0.2'']),
                 (''cam'', JStr ''A'')]"

definition rec_B :: "string json" where
  "rec_B = JObj [(''id'', JInt 2), (''vectors'', JArr [JFloat ''0.3'', JFloat ''0.4'']),
                 (''cam'', JStr ''B'')]"

text \<open>A record with two more fields, written in two orders of its keys.\<close>

definition rec_C :: "string json" where
  "rec_C = JObj [(''id'', JInt 3), (''vectors'', JArr [JFloat ''0.5'', JFloat ''0.6'']),
                 (''cam'', JStr ''C''), (''plate'', JStr ''XY'')]"

definition rec_C_reordered :: "string json" where
  "rec_C_reordered = JObj [(''plate'', JStr ''XY''), (''vectors'', JArr [JFloat ''0.5'', JFloat ''0.6'']),
                           (''cam'', JStr ''C''), (''id'', JInt 3)]"

text \<open>A record without \<^verbatim>\<open>id\<close>.\<close>

definition rec_no_id :: "string json" where
  "rec_no_id = JObj [(''vectors'', JArr [JFloat ''0.5'']), (''cam'', JStr ''C'')]"

text \<open>
  Two refused probes, then a reachable database in which the collection is absent or
  present, and every later call succeeds. The vectors of the records above are lists of
  floats, for which \<open>convert\<close> is not consulted.
\<close>

definition env_of :: "string json \<Rightarrow> bool \<Rightarrow> string env" where
  "env_of data present =
     \<lparr>probe = (\<lambda>n. if n < 2 then Some ''refused'' else None),
      load_json = Inr data,
      exists_reply = Inr present,
      create_reply = None,
      accepts = (\<lambda>i v. True),
      convert = (\<lambda>v. v),
      upsert_reply = None\<rparr>"

text \<open>A database that is never reachable.\<close>

definition env_down :: "string env" where
  "env_down =
     \<lparr>probe = (\<lambda>n. Some ''refused''),
      load_json = Inr (JArr [rec_A, rec_B]),
      exists_reply = Inr False,
      create_reply = None,
      accepts = (\<lambda>i v. True),
      convert = (\<lambda>v. v),
      upsert_reply = None\<rparr>"

section \<open>Lemmas\<close>

subsection \<open>Kinds of events\<close>

lemma create_is_seeding_call: "is_create e \<Longrightarrow> seeding_call e"
  by (cases e) simp_all

lemma upsert_is_seeding_call: "is_upsert e \<Longrightarrow> seeding_call e"
  by (cases e) simp_all

subsection \<open>The connection loop\<close>

lemma connect_loop_fails:
  "\<forall>j<k. pr (n + j) \<noteq> None \<Longrightarrow> pr (n + k) = None \<Longrightarrow>
   connect_loop pr False n log =
     Some (Suc (n + k),
           log @ concat (map (\<lambda>j. [GetCollections, Print (Failed (the (pr j))), Sleep 3]) [n..<n + k])
               @ [GetCollections, Print Connected])"
proof (induction k arbitrary: n log)
  case 0
  then show ?case
    by (simp add: connect_loop.simps)
next
  case (Suc k)
  from Suc.prems(1) have "pr (n + 0) \<noteq> None" by blast
  then obtain e where e: "pr n = Some e" by auto
  have a: "\<forall>j<k. pr (Suc n + j) \<noteq> None"
    using Suc.prems(1) by (metis Suc_less_eq add_Suc_shift)
  have b: "pr (Suc n + k) = None" using Suc.prems(2) by simp
  have u: "[n..<n + Suc k] = n # [Suc n..<Suc n + k]"
    by (simp add: upt_conv_Cons del: upt_Suc)
  have "connect_loop pr False n log
        = connect_loop pr False (Suc n) (log @ [GetCollections, Print (Failed e), Sleep 3])"
    by (subst connect_loop.simps) (simp add: e)
  also note Suc.IH [OF a b]
  finally show ?case
    unfolding u by (simp add: e)
qed

lemma connect_loop_some:
  "connect_loop pr c n log = Some r \<Longrightarrow> c \<or> (\<exists>j\<ge>n. pr j = None)"
proof (induct rule: connect_loop.raw_induct [rotated 1, consumes 1])
  case (1 f pr c n log r)
  show ?case
  proof (cases c)
    case True
    then show ?thesis by simp
  next
    case False
    show ?thesis
    proof (cases "pr n")
      case None
      then show ?thesis by auto
    next
      case (Some e)
      with False 1(2) have "f pr c (Suc n) (log @ [GetCollections, Print (Failed e), Sleep 3]) = Some r"
        by simp
      from 1(1) [OF this] False obtain j where "Suc n \<le> j" "pr j = None" by auto
      then show ?thesis by (auto intro: Suc_leD)
    qed
  qed
qed

lemma connect_loop_diverges:
  assumes "\<forall>j. pr j \<noteq> None"
  shows "connect_loop pr False n log = None"
proof (cases "connect_loop pr False n log")
  case None
  then show ?thesis .
next
  case (Some r)
  from connect_loop_some [OF this] assms show ?thesis by blast
qed

text \<open>The first successful probe.\<close>

lemma first_success:
  assumes "pr (n::nat) = None"
  shows "\<exists>k\<le>n. pr k = None \<and> (\<forall>j<k. pr j \<noteq> None)"
proof -
  let ?k = "LEAST k. pr k = None"
  have "pr ?k = None" using assms by (rule LeastI)
  moreover have "?k \<le> n" using assms by (rule Least_le)
  moreover have "\<forall>j<?k. pr j \<noteq> None" using not_less_Least by blast
  ultimately show ?thesis by blast
qed

lemma retry_events_quiet:
  "\<forall>e\<in>set (concat (map (\<lambda>j. [GetCollections, Print (Failed (the (pr j))), Sleep 3]) js)
             @ [GetCollections, Print Connected]). \<not> seeding_call e \<and> \<not> is_done e"
  by (induction js) auto

lemma retry_events_count:
  "count_list (concat (map (\<lambda>j. [GetCollections, Print (Failed (the (pr j))), Sleep 3]) js)
             @ [GetCollections, Print Connected]) GetCollections = Suc (length js)"
  by (induction js) auto

lemma seed_data_connects:
  fixes env :: "'f env"
  assumes "\<forall>j<k. probe env j \<noteq> None" and "probe env k = None"
  shows "\<exists>pre. seed_data env = Some (load_and_seed env pre)
           \<and> (\<forall>e\<in>set pre. \<not> seeding_call e \<and> \<not> is_done e)
           \<and> count_list pre GetCollections = Suc k"
proof -
  let ?fails = "concat (map (\<lambda>j. [GetCollections, Print (Failed (the (probe env j))), Sleep 3]) [0..<0 + k])
                  @ [GetCollections, Print Connected :: 'f event]"
  have "connect_loop (probe env) False 0 [Print Attempting]
          = Some (Suc (0 + k), [Print Attempting] @ ?fails)"
    using assms by (intro connect_loop_fails) auto
  then have "seed_data env = Some (load_and_seed env (Print Attempting # ?fails))"
    by (simp add: seed_data_def)
  moreover have "\<forall>e\<in>set (Print Attempting # ?fails). \<not> seeding_call e \<and> \<not> is_done e"
    using retry_events_quiet [of "probe env" "[0..<0 + k]"] by simp
  moreover have "count_list (Print Attempting # ?fails) GetCollections = Suc k"
    using retry_events_count [of "probe env" "[0..<0 + k]"] by simp
  ultimately show ?thesis by blast
qed

lemma seed_data_reachable:
  fixes env :: "'f env"
  assumes "probe env n = None"
  shows "\<exists>pre. seed_data env = Some (load_and_seed env pre)
           \<and> (\<forall>e\<in>set pre. \<not> seeding_call e \<and> \<not> is_done e)"
proof -
  from first_success [of "probe env" n, OF assms] obtain k
    where "probe env k = None" "\<forall>j<k. probe env j \<noteq> None" by blast
  from seed_data_connects [OF this(2) this(1)] show ?thesis by blast
qed

lemma seed_data_Some:
  fixes env :: "'f env"
  assumes "seed_data env = Some res"
  shows "\<exists>pre. res = load_and_seed env pre \<and> (\<forall>e\<in>set pre. \<not> seeding_call e \<and> \<not> is_done e)"
proof -
  from assms obtain r where r: "connect_loop (probe env) False 0 [Print Attempting :: 'f event] = Some r"
    by (auto simp: seed_data_def split: option.splits)
  from connect_loop_some [OF r] obtain n where "probe env n = None" by blast
  from seed_data_reachable [OF this] assms show ?thesis by auto
qed

subsection \<open>Records and points\<close>

lemma map_of_filter_key:
  "map_of (filter (\<lambda>kv. fst kv \<noteq> k) kvs) k' = (if k' = k then None else map_of kvs k')"
  by (induction kvs) auto

lemma filter_filter_keys:
  "filter (\<lambda>kv. fst kv \<noteq> b) (filter (\<lambda>kv. fst kv \<noteq> a) kvs)
     = filter (\<lambda>kv. fst kv \<noteq> a \<and> fst kv \<noteq> b) kvs"
  by (induction kvs) auto

lemma point_struct_JObj:
  assumes "map_of kvs ''id'' = Some i" and "map_of kvs ''vectors'' = Some v"
  shows "point_struct ok cv (JObj kvs) =
           (if ok i v
            then Inr \<lparr>pid = i, vector = held_vector cv v,
                      payload = JObj (filter (\<lambda>kv. fst kv \<noteq> ''id'' \<and> fst kv \<noteq> ''vectors'') kvs)\<rparr>
            else Inl ValidationError)"
  using assms by (simp add: point_struct_def map_of_filter_key filter_filter_keys)

lemma point_struct_Inr:
  assumes "point_struct ok cv item = Inr p"
  shows "\<exists>kvs v. item = JObj kvs \<and> map_of kvs ''id'' = Some (pid p)
           \<and> map_of kvs ''vectors'' = Some v \<and> vector p = held_vector cv v
           \<and> payload p = JObj (filter (\<lambda>kv. fst kv \<noteq> ''id'' \<and> fst kv \<noteq> ''vectors'') kvs)
           \<and> ok (pid p) v"
proof (cases item)
  case (JObj kvs)
  from assms JObj obtain i where i: "map_of kvs ''id'' = Some i"
    by (auto simp: point_struct_def split: option.splits)
  from assms JObj i obtain v where v: "map_of kvs ''vectors'' = Some v"
    by (auto simp: point_struct_def map_of_filter_key split: option.splits)
  from assms JObj i v show ?thesis
    by (auto simp: point_struct_JObj [OF i v] split: if_splits)
qed (use assms in \<open>auto simp: point_struct_def\<close>)

lemma point_struct_missing:
  "record_fields item = None \<Longrightarrow> \<exists>e. point_struct ok cv item = Inl e"
  by (cases item) (auto simp: point_struct_def map_of_filter_key split: option.splits)

lemma build_points_length:
  "build_points ok cv items = Inr ps \<Longrightarrow> length ps = length items"
  by (induction items arbitrary: ps) (auto split: sum.splits)

lemma build_points_nth:
  "build_points ok cv items = Inr ps \<Longrightarrow> i < length items \<Longrightarrow>
   point_struct ok cv (items ! i) = Inr (ps ! i)"
proof (induction items arbitrary: ps i)
  case Nil
  then show ?case by simp
next
  case (Cons item items)
  then show ?case
    by (cases i) (auto split: sum.splits)
qed

lemma build_points_missing:
  "r \<in> set items \<Longrightarrow> record_fields r = None \<Longrightarrow> \<exists>e. build_points ok cv items = Inl e"
proof (induction items)
  case Nil
  then show ?case by simp
next
  case (Cons item items)
  show ?case
  proof (cases "point_struct ok cv item")
    case (Inl e)
    then show ?thesis by simp
  next
    case (Inr p)
    with point_struct_missing [of item ok cv] have "record_fields item \<noteq> None"
      by (cases "record_fields item") auto
    with Cons.prems have "r \<in> set items" by auto
    from Cons.IH [OF this Cons.prems(2)] Inr show ?thesis by auto
  qed
qed

lemma build_points_accepted:
  "\<forall>r\<in>set items. \<exists>i v. record_fields r = Some (i, v) \<and> ok i v \<Longrightarrow>
   \<exists>ps. build_points ok cv items = Inr ps"
proof (induction items)
  case Nil
  then show ?case by simp
next
  case (Cons item items)
  from Cons.prems obtain i v where f: "record_fields item = Some (i, v)" and ok: "ok i v"
    by auto
  from f obtain kvs where kvs: "item = JObj kvs" by (cases item) auto
  from f kvs have "map_of kvs ''id'' = Some i" "map_of kvs ''vectors'' = Some v"
    by (auto split: option.splits)
  from point_struct_JObj [OF this, of ok cv] ok kvs
  obtain p where "point_struct ok cv item = Inr p" by auto
  moreover from Cons obtain ps where "build_points ok cv items = Inr ps" by auto
  ultimately show ?case by simp
qed

subsection \<open>The steps after the connection loop\<close>

lemma first_vector_size_Inr:
  assumes "first_vector_size data = Inr sz"
  shows "\<exists>kvs rest v. data = JArr (JObj kvs # rest) \<and> map_of kvs ''vectors'' = Some v
           \<and> py_len v = Inr sz"
proof -
  from assms obtain r where r: "subscript_zero data = Inr r"
    by (auto simp: first_vector_size_def split: sum.splits)
  from assms r obtain v where v: "subscript_key ''vectors'' r = Inr v" "py_len v = Inr sz"
    by (auto simp: first_vector_size_def split: sum.splits)
  from v(1) obtain kvs where kvs: "r = JObj kvs" "map_of kvs ''vectors'' = Some v"
    by (cases r) (auto split: option.splits)
  from r kvs(1) obtain rest where "data = JArr (JObj kvs # rest)"
    by (cases data rule: subscript_zero.cases) auto
  with kvs v show ?thesis by blast
qed

lemma first_vector_size_JArr:
  "map_of kvs ''vectors'' = Some v \<Longrightarrow>
   first_vector_size (JArr (JObj kvs # rest)) = py_len v"
  by (simp add: first_vector_size_def)

lemma ensure_collection_cases:
  "ensure_collection env sz log =
     (case exists_reply env of
        Inl e \<Rightarrow> (log @ [CollectionExists COLLECTION_NAME], Some e)
      | Inr present \<Rightarrow>
          if present then (log @ [CollectionExists COLLECTION_NAME], None)
          else (log @ [CollectionExists COLLECTION_NAME,
                       CreateCollection COLLECTION_NAME sz Cosine], create_reply env))"
  by (simp add: ensure_collection_def Let_def split: sum.splits bool.splits)

lemma load_and_seed_unfold:
  "load_and_seed env log =
     (case load_json env of
        Inl e \<Rightarrow> (log, Inl e)
      | Inr data \<Rightarrow>
          (case first_vector_size data of
             Inl e \<Rightarrow> (log, Inl e)
           | Inr sz \<Rightarrow>
               (case exists_reply env of
                  Inl e \<Rightarrow> (log @ [CollectionExists COLLECTION_NAME], Inl e)
                | Inr present \<Rightarrow>
                    if present
                    then batch_upload env data (log @ [CollectionExists COLLECTION_NAME])
                    else (case create_reply env of
                            Some e \<Rightarrow>
                              (log @ [CollectionExists COLLECTION_NAME,
                                      CreateCollection COLLECTION_NAME sz Cosine], Inl e)
                          | None \<Rightarrow>
                              batch_upload env data
                                (log @ [CollectionExists COLLECTION_NAME,
                                        CreateCollection COLLECTION_NAME sz Cosine])))))"
  by (simp add: load_and_seed_def ensure_collection_cases split: sum.splits option.splits)

lemma batch_upload_JArr:
  "batch_upload env (JArr recs) log =
     (case build_points (accepts env) (convert env) recs of
        Inl e \<Rightarrow> (log, Inl e)
      | Inr points \<Rightarrow>
          (case upsert_reply env of
             Some e \<Rightarrow> (log @ [Upsert COLLECTION_NAME points], Inl e)
           | None \<Rightarrow>
               (log @ [Upsert COLLECTION_NAME points, Print (Done (length points))], Inr ())))"
  by (simp add: batch_upload_def)

lemma load_and_seed_prefix:
  "\<exists>ex. fst (load_and_seed env log) = log @ ex \<and> GetCollections \<notin> set ex"
  by (cases "load_json env"; cases "first_vector_size (projr (load_json env))";
      cases "exists_reply env"; cases "create_reply env"; cases "upsert_reply env")
     (auto simp: load_and_seed_unfold batch_upload_def split: sum.splits)

lemma input_record_fields:
  assumes "input_record ok d r"
  shows "\<exists>i xs. record_fields r = Some (i, JArr xs) \<and> length xs = d \<and> ok i (JArr xs)"
proof (cases "record_fields r")
  case None
  with assms show ?thesis by (simp add: input_record_def)
next
  case (Some iv)
  obtain i v where iv: "iv = (i, v)" by (cases iv)
  from assms Some iv show ?thesis
    by (cases v) (simp_all add: input_record_def)
qed

lemma map_of_payload:
  "map_of (filter (\<lambda>kv. fst kv \<noteq> a \<and> fst kv \<noteq> b) kvs) k
     = (if k = a \<or> k = b then None else map_of kvs k)"
  by (induction kvs) auto

lemma upsert_in_log:
  fixes env :: "'f env"
  assumes "seed_data env = Some (log, r)" and "Upsert nm pts \<in> set log"
  shows "nm = COLLECTION_NAME
       \<and> (\<exists>recs. load_json env = Inr (JArr recs) \<and> build_points (accepts env) (convert env) recs = Inr pts)"
proof -
  from seed_data_Some [OF assms(1)] obtain pre
    where pre: "load_and_seed env pre = (log, r)"
      and q: "\<forall>e\<in>set pre. \<not> seeding_call e \<and> \<not> is_done e" by metis
  have np: "Upsert nm pts \<notin> set pre" using q by auto
  from pre assms(2) np obtain data sz where d: "load_json env = Inr data" "first_vector_size data = Inr sz"
    by (auto simp: load_and_seed_def split: sum.splits)
  from first_vector_size_Inr [OF d(2)] obtain recs where recs: "data = JArr recs" by blast
  from pre assms(2) np d recs show ?thesis
    by (auto simp: load_and_seed_unfold batch_upload_JArr split: sum.splits option.splits if_splits)
qed

lemma create_in_log:
  fixes env :: "'f env"
  assumes "seed_data env = Some (log, r)" and "CreateCollection nm sz d \<in> set log"
  shows "nm = COLLECTION_NAME \<and> d = Cosine \<and> exists_reply env = Inr False
       \<and> (\<exists>data. load_json env = Inr data \<and> first_vector_size data = Inr sz)"
proof -
  from seed_data_Some [OF assms(1)] obtain pre
    where pre: "load_and_seed env pre = (log, r)"
      and q: "\<forall>e\<in>set pre. \<not> seeding_call e \<and> \<not> is_done e" by metis
  have np: "CreateCollection nm sz d \<notin> set pre" using q by auto
  from pre assms(2) np show ?thesis
    by (auto simp: load_and_seed_unfold batch_upload_def split: sum.splits option.splits if_splits)
qed

text \<open>A run on valid records whose collection step succeeds.\<close>

lemma seeding_run:
  fixes env :: "'f env"
  assumes conn: "probe env n = None"
    and load: "load_json env = Inr (JArr recs)" and ne: "recs \<noteq> []"
    and recs: "\<forall>r\<in>set recs. input_record (accepts env) d r"
    and coll: "exists_reply env = Inr True \<or> (exists_reply env = Inr False \<and> create_reply env = None)"
  shows "\<exists>pre pts. build_points (accepts env) (convert env) recs = Inr pts
           \<and> (\<forall>e\<in>set pre. \<not> is_upsert e \<and> \<not> is_done e)
           \<and> seed_data env =
               Some (case upsert_reply env of
                       None \<Rightarrow> (pre @ [Upsert COLLECTION_NAME pts, Print (Done (length pts))], Inr ())
                     | Some e \<Rightarrow> (pre @ [Upsert COLLECTION_NAME pts], Inl e))"
proof -
  from seed_data_reachable [OF conn] obtain pre
    where pre: "seed_data env = Some (load_and_seed env pre)"
      and q: "\<forall>e\<in>set pre. \<not> seeding_call e \<and> \<not> is_done e" by blast
  have q': "\<forall>e\<in>set pre. \<not> is_upsert e \<and> \<not> is_done e"
    using q by (blast dest: upsert_is_seeding_call)
  from ne obtain r0 rest where r0: "recs = r0 # rest" by (cases recs) auto
  with recs have "input_record (accepts env) d r0" by simp
  from input_record_fields [OF this] obtain i xs
    where f: "record_fields r0 = Some (i, JArr xs)" "length xs = d" by blast
  then obtain kvs where kvs: "r0 = JObj kvs" "map_of kvs ''vectors'' = Some (JArr xs)"
    by (cases r0) (auto split: option.splits)
  have sz: "first_vector_size (JArr recs) = Inr d"
    using first_vector_size_JArr [OF kvs(2), of rest] r0 kvs(1) f(2) by simp
  have "\<forall>r\<in>set recs. \<exists>i v. record_fields r = Some (i, v) \<and> accepts env i v"
    using recs input_record_fields by blast
  from build_points_accepted [OF this] obtain pts
    where pts: "build_points (accepts env) (convert env) recs = Inr pts" by blast
  from coll show ?thesis
  proof
    assume ex: "exists_reply env = Inr True"
    have "load_and_seed env pre =
            (case upsert_reply env of
               None \<Rightarrow> ((pre @ [CollectionExists COLLECTION_NAME])
                          @ [Upsert COLLECTION_NAME pts, Print (Done (length pts))], Inr ())
             | Some e \<Rightarrow> ((pre @ [CollectionExists COLLECTION_NAME])
                            @ [Upsert COLLECTION_NAME pts], Inl e))"
      using load sz ex pts by (simp add: load_and_seed_unfold batch_upload_JArr split: option.splits)
    moreover have "\<forall>e\<in>set (pre @ [CollectionExists COLLECTION_NAME]). \<not> is_upsert e \<and> \<not> is_done e"
      using q' by simp
    ultimately show ?thesis using pre pts by metis
  next
    assume ex: "exists_reply env = Inr False \<and> create_reply env = None"
    let ?pre = "pre @ [CollectionExists COLLECTION_NAME, CreateCollection COLLECTION_NAME d Cosine]"
    have "load_and_seed env pre =
            (case upsert_reply env of
               None \<Rightarrow> (?pre @ [Upsert COLLECTION_NAME pts, Print (Done (length pts))], Inr ())
             | Some e \<Rightarrow> (?pre @ [Upsert COLLECTION_NAME pts], Inl e))"
      using load sz ex pts by (simp add: load_and_seed_unfold batch_upload_JArr split: option.splits)
    moreover have "\<forall>e\<in>set ?pre. \<not> is_upsert e \<and> \<not> is_done e"
      using q' by simp
    ultimately show ?thesis using pre pts by metis
  qed
qed

lemma same_fields_iff: "same_fields a b \<longleftrightarrow> map_of a = map_of b"
proof
  assume s: "same_fields a b"
  show "map_of a = map_of b"
  proof
    fix k
    show "map_of a k = map_of b k"
    proof (cases "k \<in> set (map fst a @ map fst b)")
      case True
      with s show ?thesis by (simp add: same_fields_def)
    next
      case False
      then have "map_of a k = None" "map_of b k = None"
        by (simp_all add: map_of_eq_None_iff)
      then show ?thesis by simp
    qed
  qed
next
  assume "map_of a = map_of b"
  then show "same_fields a b" by (simp add: same_fields_def)
qed

lemma same_fields_payload:
  assumes "same_fields a b"
  shows "same_fields (filter (\<lambda>kv. fst kv \<noteq> x \<and> fst kv \<noteq> y) a)
                     (filter (\<lambda>kv. fst kv \<noteq> x \<and> fst kv \<noteq> y) b)"
  using assms unfolding same_fields_iff by (auto simp: fun_eq_iff map_of_payload)

lemma point_struct_same_record:
  assumes "same_record x y"
    and "point_struct ok1 cv x = Inr p" and "point_struct ok2 cv y = Inr q"
  shows "same_point p q"
proof -
  from point_struct_Inr [OF assms(2)] obtain a v
    where a: "x = JObj a" "map_of a ''id'' = Some (pid p)" "map_of a ''vectors'' = Some v"
      "vector p = held_vector cv v"
      "payload p = JObj (filter (\<lambda>kv. fst kv \<noteq> ''id'' \<and> fst kv \<noteq> ''vectors'') a)"
    by blast
  from point_struct_Inr [OF assms(3)] obtain b w
    where b: "y = JObj b" "map_of b ''id'' = Some (pid q)" "map_of b ''vectors'' = Some w"
      "vector q = held_vector cv w"
      "payload q = JObj (filter (\<lambda>kv. fst kv \<noteq> ''id'' \<and> fst kv \<noteq> ''vectors'') b)"
    by blast
  from assms(1) a(1) b(1) have s: "same_fields a b" by simp
  then have m: "map_of a = map_of b" by (simp add: same_fields_iff)
  from m a(2) b(2) have "pid p = pid q" by simp
  moreover from m a(3) b(3) have "v = w" by simp
  with a(4) b(4) have "vector p = vector q" by simp
  moreover from same_fields_payload [OF s] a(5) b(5)
  have "same_record (payload p) (payload q)" by simp
  ultimately show ?thesis by (simp add: same_point_def)
qed

lemma build_points_same_records:
  "list_all2 same_record xs ys \<Longrightarrow> build_points ok1 cv xs = Inr ps \<Longrightarrow>
   build_points ok2 cv ys = Inr qs \<Longrightarrow> list_all2 same_point ps qs"
proof (induction xs ys arbitrary: ps qs rule: list_all2_induct)
  case Nil
  then show ?case by simp
next
  case (Cons x xs y ys)
  from Cons.prems(1) obtain p ps' where p: "point_struct ok1 cv x = Inr p"
      "build_points ok1 cv xs = Inr ps'" "ps = p # ps'"
    by (auto split: sum.splits)
  from Cons.prems(2) obtain q qs' where q: "point_struct ok2 cv y = Inr q"
      "build_points ok2 cv ys = Inr qs'" "qs = q # qs'"
    by (auto split: sum.splits)
  from point_struct_same_record [OF Cons.hyps(1) p(1) q(1)] Cons.IH [OF p(2) q(2)] p(3) q(3)
  show ?case by simp
qed

subsection \<open>Evaluation of the concrete runs\<close>

lemmas run_defs =
  seed_data_def connect_loop.simps load_and_seed_def first_vector_size_def
  ensure_collection_def batch_upload_def point_struct_def held_vector_def

lemmas example_defs =
  env_of_def env_down_def rec_A_def rec_B_def rec_C_def rec_C_reordered_def rec_no_id_def

section \<open>Claims\<close>

subsection \<open>C1\<close>

text \<open>
  Claim C1. Take a run whose connection loop ends, whose file holds a non-empty array of
  InputRecords with vectors of one length \<open>d\<close>, and whose collection step succeeds (the
  collection exists, or it is absent and its creation succeeds). Then exactly one
  \<^verbatim>\<open>upsert\<close> call is made, it carries as many points as there are records, and when the
  call returns the run ends normally after printing that same number.
\<close>

theorem upsert_count_equals_records:
  fixes env :: "'f env"
  assumes "probe env n = None"
    and "load_json env = Inr (JArr recs)" and "recs \<noteq> []"
    and "\<forall>r\<in>set recs. input_record (accepts env) d r"
    and "exists_reply env = Inr True \<or> (exists_reply env = Inr False \<and> create_reply env = None)"
  shows "\<exists>pre pts. length pts = length recs
           \<and> (\<forall>e\<in>set pre. \<not> is_upsert e \<and> \<not> is_done e)
           \<and> seed_data env =
               Some (case upsert_reply env of
                       None \<Rightarrow> (pre @ [Upsert COLLECTION_NAME pts, Print (Done (length recs))], Inr ())
                     | Some e \<Rightarrow> (pre @ [Upsert COLLECTION_NAME pts], Inl e))"
proof -
  from seeding_run [OF assms] obtain pre pts
    where pts: "build_points (accepts env) (convert env) recs = Inr pts"
      and pre: "\<forall>e\<in>set pre. \<not> is_upsert e \<and> \<not> is_done e"
      and run: "seed_data env =
               Some (case upsert_reply env of
                       None \<Rightarrow> (pre @ [Upsert COLLECTION_NAME pts, Print (Done (length pts))], Inr ())
                     | Some e \<Rightarrow> (pre @ [Upsert COLLECTION_NAME pts], Inl e))"
    by blast
  have "length pts = length recs" using pts by (rule build_points_length)
  with pre run show ?thesis by metis
qed

theorem upsert_count_equals_records_witness:
  "probe (env_of (JArr [rec_A, rec_B]) False) 2 = None
   \<and> load_json (env_of (JArr [rec_A, rec_B]) False) = Inr (JArr [rec_A, rec_B])
   \<and> input_record (accepts (env_of (JArr [rec_A, rec_B]) False)) 2 rec_A
   \<and> input_record (accepts (env_of (JArr [rec_A, rec_B]) False)) 2 rec_B
   \<and> exists_reply (env_of (JArr [rec_A, rec_B]) False) = Inr False
   \<and> create_reply (env_of (JArr [rec_A, rec_B]) False) = None
   \<and> (\<exists>pre pts. length pts = 2
         \<and> seed_data (env_of (JArr [rec_A, rec_B]) False)
             = Some (pre @ [Upsert COLLECTION_NAME pts, Print (Done 2)], Inr ()))"
proof -
  let ?E = "env_of (JArr [rec_A, rec_B]) False"
  have h1: "probe ?E 2 = None" by (simp add: env_of_def)
  have h2: "load_json ?E = Inr (JArr [rec_A, rec_B])" by (simp add: env_of_def)
  have h3: "[rec_A, rec_B] \<noteq> []" by simp
  have h4: "\<forall>r\<in>set [rec_A, rec_B]. input_record (accepts ?E) 2 r"
    by (simp add: input_record_def example_defs)
  have h5: "exists_reply ?E = Inr True \<or> (exists_reply ?E = Inr False \<and> create_reply ?E = None)"
    by (simp add: env_of_def)
  have u: "upsert_reply ?E = None" by (simp add: env_of_def)
  from upsert_count_equals_records [OF h1 h2 h3 h4 h5]
  have "\<exists>pre pts. length pts = 2
         \<and> seed_data ?E = Some (pre @ [Upsert COLLECTION_NAME pts, Print (Done 2)], Inr ())"
    unfolding u by auto
  with h1 h2 h4 h5 show ?thesis by (simp add: env_of_def)
qed

subsection \<open>C2\<close>

text \<open>
  Claim C2. A record that has an \<^verbatim>\<open>id\<close> and a \<^verbatim>\<open>vectors\<close> list of floats (and that
  \<^verbatim>\<open>PointStruct\<close> accepts) becomes the point whose identifier is the \<^verbatim>\<open>id\<close> value and
  whose vector is the \<^verbatim>\<open>vectors\<close> value; its payload holds the other fields, in their
  order and with their values, and neither \<^verbatim>\<open>id\<close> nor \<^verbatim>\<open>vectors\<close>.
\<close>

theorem record_to_point_fields:
  assumes "map_of kvs ''id'' = Some i" and "map_of kvs ''vectors'' = Some v"
    and "float_list v" and "ok i v"
  shows "\<exists>rest. point_struct ok cv (JObj kvs) = Inr \<lparr>pid = i, vector = v, payload = JObj rest\<rparr>
           \<and> rest = filter (\<lambda>kv. fst kv \<noteq> ''id'' \<and> fst kv \<noteq> ''vectors'') kvs
           \<and> (\<forall>k. map_of rest k = (if k = ''id'' \<or> k = ''vectors'' then None else map_of kvs k))
           \<and> ''id'' \<notin> fst ` set rest \<and> ''vectors'' \<notin> fst ` set rest"
proof -
  let ?rest = "filter (\<lambda>kv. fst kv \<noteq> ''id'' \<and> fst kv \<noteq> ''vectors'') kvs"
  have "held_vector cv v = v"
    using assms(3) by (simp add: held_vector_def)
  then have "point_struct ok cv (JObj kvs) = Inr \<lparr>pid = i, vector = v, payload = JObj ?rest\<rparr>"
    using point_struct_JObj [OF assms(1,2), of ok cv] assms(4) by simp
  moreover have "\<forall>k. map_of ?rest k = (if k = ''id'' \<or> k = ''vectors'' then None else map_of kvs k)"
    by (simp add: map_of_payload)
  moreover have "''id'' \<notin> fst ` set ?rest" "''vectors'' \<notin> fst ` set ?rest"
    by auto
  ultimately show ?thesis by blast
qed

theorem record_to_point_fields_witness:
  "map_of [(''id'', JInt 1), (''vectors'', JArr [JFloat ''0.1'', JFloat ''0.2'']), (''cam'', JStr ''A'')]
      ''id'' = Some (JInt 1)
   \<and> map_of [(''id'', JInt 1), (''vectors'', JArr [JFloat ''0.1'', JFloat ''0.2'']), (''cam'', JStr ''A'')]
      ''vectors'' = Some (JArr [JFloat ''0.1'', JFloat ''0.2''])
   \<and> float_list (JArr [JFloat ''0.1'', JFloat ''0.2''])
   \<and> point_struct (\<lambda>i v. True) (\<lambda>v. JNull) rec_A
       = Inr \<lparr>pid = JInt 1, vector = JArr [JFloat ''0.1'', JFloat ''0.2''],
              payload = JObj [(''cam'', JStr ''A'')]\<rparr>"
proof -
  let ?kvs = "[(''id'', JInt 1), (''vectors'', JArr [JFloat ''0.1'', JFloat ''0.2'']),
               (''cam'', JStr ''A'')] :: (string \<times> string json) list"
  have h1: "map_of ?kvs ''id'' = Some (JInt 1)" by simp
  have h2: "map_of ?kvs ''vectors'' = Some (JArr [JFloat ''0.1'', JFloat ''0.2''])" by simp
  have h3: "float_list (JArr [JFloat ''0.1'', JFloat ''0.2''] :: string json)" by simp
  have h4: "(\<lambda>i v. True) (JInt 1 :: string json) (JArr [JFloat ''0.1'', JFloat ''0.2''] :: string json)"
    by simp
  from record_to_point_fields [of ?kvs "JInt 1" "JArr [JFloat ''0.1'', JFloat ''0.2'']"
      "\<lambda>i v. True" "\<lambda>v. JNull", OF h1 h2 h3 h4]
  have "point_struct (\<lambda>i v. True) (\<lambda>v. JNull) (JObj ?kvs)
       = Inr \<lparr>pid = JInt 1, vector = JArr [JFloat ''0.1'', JFloat ''0.2''],
              payload = JObj [(''cam'', JStr ''A'')]\<rparr>"
    by auto
  with h1 h2 h3 show ?thesis by (simp add: rec_A_def)
qed

subsection \<open>C3\<close>

text \<open>
  Claim C3. Every \<^verbatim>\<open>create_collection\<close> call of a run is made for the target collection
  when it was reported absent, with the cosine metric and with the size
  \<^verbatim>\<open>len(data[0]['vectors'])\<close> of the first record. And when the connection loop ends, the
  first record has a \<^verbatim>\<open>vectors\<close> list and the collection is absent, that call is made, once,
  with the length of that list.
\<close>

theorem created_with_first_vector_size:
  fixes env :: "'f env"
  shows "(seed_data env = Some (log, r) \<and> CreateCollection nm sz dist \<in> set log \<longrightarrow>
            nm = COLLECTION_NAME \<and> dist = Cosine \<and> exists_reply env = Inr False
            \<and> (\<exists>kvs rest v. load_json env = Inr (JArr (JObj kvs # rest))
                  \<and> map_of kvs ''vectors'' = Some v \<and> py_len v = Inr sz))
       \<and> (probe env n = None \<and> load_json env = Inr (JArr (JObj kvs # rest))
            \<and> map_of kvs ''vectors'' = Some (JArr xs) \<and> exists_reply env = Inr False \<longrightarrow>
            (\<exists>log r. seed_data env = Some (log, r)
                \<and> filter is_create log = [CreateCollection COLLECTION_NAME (length xs) Cosine]))"
proof (rule conjI; rule impI)
  assume a: "seed_data env = Some (log, r) \<and> CreateCollection nm sz dist \<in> set log"
  from create_in_log [of env log r nm sz dist] a
  obtain data where c: "nm = COLLECTION_NAME" "dist = Cosine" "exists_reply env = Inr False"
    and d: "load_json env = Inr data" "first_vector_size data = Inr sz" by blast
  from first_vector_size_Inr [OF d(2)] d(1)
  have "\<exists>kvs rest v. load_json env = Inr (JArr (JObj kvs # rest))
          \<and> map_of kvs ''vectors'' = Some v \<and> py_len v = Inr sz" by auto
  with c show "nm = COLLECTION_NAME \<and> dist = Cosine \<and> exists_reply env = Inr False
            \<and> (\<exists>kvs rest v. load_json env = Inr (JArr (JObj kvs # rest))
                  \<and> map_of kvs ''vectors'' = Some v \<and> py_len v = Inr sz)" by blast
next
  assume a: "probe env n = None \<and> load_json env = Inr (JArr (JObj kvs # rest))
            \<and> map_of kvs ''vectors'' = Some (JArr xs) \<and> exists_reply env = Inr False"
  then obtain pre where pre: "seed_data env = Some (load_and_seed env pre)"
      and q: "\<forall>e\<in>set pre. \<not> seeding_call e \<and> \<not> is_done e"
    using seed_data_reachable [of env n] by blast
  have p: "filter is_create pre = []"
    using q by (auto simp: filter_empty_conv dest: create_is_seeding_call)
  have sz: "first_vector_size (JArr (JObj kvs # rest)) = Inr (length xs)"
    using a by (simp add: first_vector_size_JArr)
  have "filter is_create (fst (load_and_seed env pre))
          = [CreateCollection COLLECTION_NAME (length xs) Cosine]"
    using a sz p
    by (simp add: load_and_seed_unfold batch_upload_JArr split: sum.splits option.splits)
  with pre show "\<exists>log r. seed_data env = Some (log, r)
                \<and> filter is_create log = [CreateCollection COLLECTION_NAME (length xs) Cosine]"
    by (cases "load_and_seed env pre") auto
qed

theorem created_with_first_vector_size_witness:
  "seed_data (env_of (JArr [rec_A, rec_B]) False) =
      Some ([Print Attempting, GetCollections, Print (Failed ''refused''), Sleep 3,
          GetCollections, Print (Failed ''refused''), Sleep 3, GetCollections, Print Connected,
          CollectionExists ''nt-cctv-vehicles'', CreateCollection ''nt-cctv-vehicles'' 2 Cosine,
          Upsert ''nt-cctv-vehicles''
            [\<lparr>pid = JInt 1, vector = JArr [JFloat ''0.1'', JFloat ''0.2''],
               payload = JObj [(''cam'', JStr ''A'')]\<rparr>,
             \<lparr>pid = JInt 2, vector = JArr [JFloat ''0.3'', JFloat ''0.4''],
               payload = JObj [(''cam'', JStr ''B'')]\<rparr>],
          Print (Done 2)], Inr ())
   \<and> CreateCollection COLLECTION_NAME 2 Cosine \<in> set
         [Print Attempting, GetCollections, Print (Failed ''refused''), Sleep 3,
          GetCollections, Print (Failed ''refused''), Sleep 3, GetCollections, Print Connected,
          CollectionExists ''nt-cctv-vehicles'', CreateCollection ''nt-cctv-vehicles'' 2 Cosine,
          Upsert ''nt-cctv-vehicles''
            [\<lparr>pid = JInt 1, vector = JArr [JFloat ''0.1'', JFloat ''0.2''],
               payload = JObj [(''cam'', JStr ''A'')]\<rparr>,
             \<lparr>pid = JInt 2, vector = JArr [JFloat ''0.3'', JFloat ''0.4''],
               payload = JObj [(''cam'', JStr ''B'')]\<rparr>],
          Print (Done 2)]
   \<and> probe (env_of (JArr [rec_A, rec_B]) False) 2 = None
   \<and> exists_reply (env_of (JArr [rec_A, rec_B]) False) = Inr False
   \<and> (\<exists>kvs rest v. load_json (env_of (JArr [rec_A, rec_B]) False) = Inr (JArr (JObj kvs # rest))
         \<and> map_of kvs ''vectors'' = Some v \<and> py_len v = Inr 2)
   \<and> (\<exists>log r. seed_data (env_of (JArr [rec_A, rec_B]) False) = Some (log, r)
         \<and> filter is_create log = [CreateCollection COLLECTION_NAME 2 Cosine])"
proof -
  let ?E = "env_of (JArr [rec_A, rec_B]) False"
  let ?L = "[Print Attempting, GetCollections, Print (Failed ''refused''), Sleep 3,
          GetCollections, Print (Failed ''refused''), Sleep 3, GetCollections, Print Connected,
          CollectionExists ''nt-cctv-vehicles'', CreateCollection ''nt-cctv-vehicles'' 2 Cosine,
          Upsert ''nt-cctv-vehicles''
            [\<lparr>pid = JInt 1, vector = JArr [JFloat ''0.1'', JFloat ''0.2''],
               payload = JObj [(''cam'', JStr ''A'')]\<rparr>,
             \<lparr>pid = JInt 2, vector = JArr [JFloat ''0.3'', JFloat ''0.4''],
               payload = JObj [(''cam'', JStr ''B'')]\<rparr>],
          Print (Done 2)] :: string event list"
  let ?kvs = "[(''id'', JInt 1), (''vectors'', JArr [JFloat ''0.1'', JFloat ''0.2'']),
               (''cam'', JStr ''A'')] :: (string \<times> string json) list"
  have run: "seed_data ?E = Some (?L, Inr ())"
    by (simp add: run_defs example_defs COLLECTION_NAME_def)
  have mem: "CreateCollection COLLECTION_NAME 2 Cosine \<in> set ?L"
    by (simp add: COLLECTION_NAME_def)
  have h: "probe ?E 2 = None \<and> load_json ?E = Inr (JArr (JObj ?kvs # [rec_B]))
            \<and> map_of ?kvs ''vectors'' = Some (JArr [JFloat ''0.1'', JFloat ''0.2''])
            \<and> exists_reply ?E = Inr False"
    by (simp add: example_defs)
  note t = created_with_first_vector_size
    [of ?E ?L "Inr ()" COLLECTION_NAME 2 Cosine 2 ?kvs "[rec_B]" "[JFloat ''0.1'', JFloat ''0.2'']"]
  from t run mem have a: "\<exists>kvs rest v. load_json ?E = Inr (JArr (JObj kvs # rest))
         \<and> map_of kvs ''vectors'' = Some v \<and> py_len v = Inr 2"
    by blast
  have len: "length [JFloat ''0.1'', JFloat ''0.2'' :: string json] = 2" by simp
  from t h have "\<exists>log r. seed_data ?E = Some (log, r)
         \<and> filter is_create log
             = [CreateCollection COLLECTION_NAME (length [JFloat ''0.1'', JFloat ''0.2'' :: string json]) Cosine]"
    by blast
  then have b: "\<exists>log r. seed_data ?E = Some (log, r)
         \<and> filter is_create log = [CreateCollection COLLECTION_NAME 2 Cosine]"
    unfolding len .
  from run mem h a b show ?thesis by blast
qed

subsection \<open>C4\<close>

text \<open>
  Claim C4, as stated, fails. The second record of the array below has no \<^verbatim>\<open>id\<close> and the
  collection is absent: the run creates the collection from the first record's vector
  length and only then stops with \<^verbatim>\<open>KeyError\<close> in the comprehension. The database is not
  as it was before the run.
\<close>

theorem missing_field_counterexample:
  "record_fields rec_no_id = None
   \<and> seed_data (env_of (JArr [rec_A, rec_no_id]) False) =
       Some ([Print Attempting, GetCollections, Print (Failed ''refused''), Sleep 3,
          GetCollections, Print (Failed ''refused''), Sleep 3, GetCollections, Print Connected,
          CollectionExists ''nt-cctv-vehicles'', CreateCollection ''nt-cctv-vehicles'' 2 Cosine], Inl (KeyError (StrKey ''id'')))
   \<and> is_create (CreateCollection ''nt-cctv-vehicles'' 2 Cosine :: string event)"
  by (simp add: run_defs example_defs COLLECTION_NAME_def)

text \<open>
  Claim C4, amended. When some element of the array is not a dict with both \<^verbatim>\<open>id\<close> and
  \<^verbatim>\<open>vectors\<close>, the transformation of the array fails, and a run whose connection loop
  ends stops with an error without any \<^verbatim>\<open>upsert\<close> call. The only call that can have
  changed the database is the creation of the collection, when it was absent.
\<close>

theorem missing_field_aborts_before_upsert:
  fixes env :: "'f env"
  assumes "probe env n = None" and "load_json env = Inr (JArr recs)"
    and "r \<in> set recs" and "record_fields r = None"
  shows "\<exists>log e. seed_data env = Some (log, Inl e)
           \<and> (\<forall>ev\<in>set log. \<not> is_upsert ev)
           \<and> (\<exists>e'. build_points (accepts env) (convert env) recs = Inl e')
           \<and> (\<forall>ev\<in>set log. is_create ev \<longrightarrow> exists_reply env = Inr False)"
proof -
  from seed_data_reachable [OF assms(1)] obtain pre
    where pre: "seed_data env = Some (load_and_seed env pre)"
      and q: "\<forall>e\<in>set pre. \<not> seeding_call e \<and> \<not> is_done e" by blast
  have q': "\<forall>e\<in>set pre. \<not> is_upsert e \<and> \<not> is_create e"
    using q by (blast dest: create_is_seeding_call upsert_is_seeding_call)
  from build_points_missing [OF assms(3,4)] obtain e'
    where e': "build_points (accepts env) (convert env) recs = Inl e'" by blast
  obtain log res where lr: "load_and_seed env pre = (log, res)" by (cases "load_and_seed env pre")
  have "(\<exists>e. res = Inl e) \<and> (\<forall>ev\<in>set log. \<not> is_upsert ev)
          \<and> (\<forall>ev\<in>set log. is_create ev \<longrightarrow> exists_reply env = Inr False)"
    using lr assms(2) e' q'
    by (auto simp: load_and_seed_unfold batch_upload_JArr split: sum.splits option.splits if_splits)
  with pre lr e' show ?thesis by auto
qed

theorem missing_field_aborts_before_upsert_witness:
  "probe (env_of (JArr [rec_A, rec_no_id]) False) 2 = None
   \<and> load_json (env_of (JArr [rec_A, rec_no_id]) False) = Inr (JArr [rec_A, rec_no_id])
   \<and> rec_no_id \<in> set [rec_A, rec_no_id]
   \<and> record_fields rec_no_id = None
   \<and> (\<exists>log e. seed_data (env_of (JArr [rec_A, rec_no_id]) False) = Some (log, Inl e)
         \<and> (\<forall>ev\<in>set log. \<not> is_upsert ev)
         \<and> (\<exists>e'. build_points (accepts (env_of (JArr [rec_A, rec_no_id]) False))
                  (convert (env_of (JArr [rec_A, rec_no_id]) False)) [rec_A, rec_no_id] = Inl e')
         \<and> (\<forall>ev\<in>set log. is_create ev \<longrightarrow> exists_reply (env_of (JArr [rec_A, rec_no_id]) False) = Inr False))"
proof -
  let ?E = "env_of (JArr [rec_A, rec_no_id]) False"
  have h1: "probe ?E 2 = None" by (simp add: env_of_def)
  have h2: "load_json ?E = Inr (JArr [rec_A, rec_no_id])" by (simp add: env_of_def)
  have h3: "rec_no_id \<in> set [rec_A, rec_no_id]" by simp
  have h4: "record_fields rec_no_id = None" by (simp add: rec_no_id_def)
  from missing_field_aborts_before_upsert [OF h1 h2 h3 h4] h1 h2 h3 h4
  show ?thesis by blast
qed

subsection \<open>C5\<close>

text \<open>
  Claim C5. On the empty array, a run whose connection loop ends stops with
  \<^verbatim>\<open>IndexError\<close>, raised by \<^verbatim>\<open>data[0]\<close>, and has made no \<^verbatim>\<open>create_collection\<close> call.
\<close>

theorem empty_array_fails:
  fixes env :: "'f env"
  assumes "probe env n = None" and "load_json env = Inr (JArr [])"
  shows "\<exists>log. seed_data env = Some (log, Inl IndexError) \<and> (\<forall>e\<in>set log. \<not> is_create e)"
proof -
  from seed_data_reachable [OF assms(1)] obtain pre
    where pre: "seed_data env = Some (load_and_seed env pre)"
      and q: "\<forall>e\<in>set pre. \<not> seeding_call e \<and> \<not> is_done e" by blast
  have "load_and_seed env pre = (pre, Inl IndexError)"
    using assms(2) by (simp add: load_and_seed_def first_vector_size_def)
  moreover have "\<forall>e\<in>set pre. \<not> is_create e"
    using q by (blast dest: create_is_seeding_call)
  ultimately show ?thesis using pre by auto
qed

theorem empty_array_fails_witness:
  "probe (env_of (JArr []) True) 2 = None
   \<and> load_json (env_of (JArr []) True) = Inr (JArr [])
   \<and> (\<exists>log. seed_data (env_of (JArr []) True) = Some (log, Inl IndexError)
         \<and> (\<forall>e\<in>set log. \<not> is_create e))"
proof -
  let ?E = "env_of (JArr []) True :: string env"
  have h1: "probe ?E 2 = None" by (simp add: env_of_def)
  have h2: "load_json ?E = Inr (JArr [])" by (simp add: env_of_def)
  from empty_array_fails [OF h1 h2] h1 h2 show ?thesis by blast
qed

subsection \<open>C6\<close>

text \<open>
  Claim C6. When \<^verbatim>\<open>collection_exists\<close> answers that the collection exists, the run makes
  no \<^verbatim>\<open>create_collection\<close> call, the only call that carries a vector size and a metric.
\<close>

theorem existing_collection_not_created:
  fixes env :: "'f env"
  assumes "exists_reply env = Inr True" and "seed_data env = Some (log, r)"
  shows "\<forall>e\<in>set log. \<not> is_create e"
proof -
  from seed_data_Some [OF assms(2)] obtain pre
    where pre: "(log, r) = load_and_seed env pre"
      and q: "\<forall>e\<in>set pre. \<not> seeding_call e \<and> \<not> is_done e" by blast
  have p: "\<forall>e\<in>set pre. \<not> is_create e"
    using q by (blast dest: create_is_seeding_call)
  show ?thesis
    using pre [symmetric] assms(1) p
    by (auto simp: load_and_seed_unfold batch_upload_def split: sum.splits option.splits)
qed

theorem existing_collection_not_created_witness:
  "exists_reply (env_of (JArr [rec_A, rec_B]) True) = Inr True
   \<and> seed_data (env_of (JArr [rec_A, rec_B]) True) =
       Some ([Print Attempting, GetCollections, Print (Failed ''refused''), Sleep 3,
          GetCollections, Print (Failed ''refused''), Sleep 3, GetCollections, Print Connected,
          CollectionExists ''nt-cctv-vehicles'',
          Upsert ''nt-cctv-vehicles''
            [\<lparr>pid = JInt 1, vector = JArr [JFloat ''0.1'', JFloat ''0.2''],
               payload = JObj [(''cam'', JStr ''A'')]\<rparr>,
             \<lparr>pid = JInt 2, vector = JArr [JFloat ''0.3'', JFloat ''0.4''],
               payload = JObj [(''cam'', JStr ''B'')]\<rparr>],
          Print (Done 2)], Inr ())
   \<and> filter is_create
         [Print Attempting, GetCollections, Print (Failed ''refused''), Sleep 3,
          GetCollections, Print (Failed ''refused''), Sleep 3, GetCollections, Print Connected,
          CollectionExists ''nt-cctv-vehicles'',
          Upsert ''nt-cctv-vehicles''
            [\<lparr>pid = JInt 1, vector = JArr [JFloat ''0.1'', JFloat ''0.2''],
               payload = JObj [(''cam'', JStr ''A'')]\<rparr>,
             \<lparr>pid = JInt 2, vector = JArr [JFloat ''0.3'', JFloat ''0.4''],
               payload = JObj [(''cam'', JStr ''B'')]\<rparr>],
          Print (Done 2)] = []"
proof -
  let ?E = "env_of (JArr [rec_A, rec_B]) True"
  let ?L = "[Print Attempting, GetCollections, Print (Failed ''refused''), Sleep 3,
          GetCollections, Print (Failed ''refused''), Sleep 3, GetCollections, Print Connected,
          CollectionExists ''nt-cctv-vehicles'',
          Upsert ''nt-cctv-vehicles''
            [\<lparr>pid = JInt 1, vector = JArr [JFloat ''0.1'', JFloat ''0.2''],
               payload = JObj [(''cam'', JStr ''A'')]\<rparr>,
             \<lparr>pid = JInt 2, vector = JArr [JFloat ''0.3'', JFloat ''0.4''],
               payload = JObj [(''cam'', JStr ''B'')]\<rparr>],
          Print (Done 2)] :: string event list"
  have h1: "exists_reply ?E = Inr True" by (simp add: env_of_def)
  have h2: "seed_data ?E = Some (?L, Inr ())"
    by (simp add: run_defs example_defs COLLECTION_NAME_def)
  from existing_collection_not_created [OF h1 h2]
  have "filter is_create ?L = []" by (simp only: filter_empty_conv)
  with h1 h2 show ?thesis by blast
qed

subsection \<open>C7\<close>

text \<open>
  Claim C7. If the first \<open>N\<close> probes fail and the next one succeeds, the run leaves the
  loop having called \<^verbatim>\<open>get_collections\<close> exactly \<open>N + 1\<close> times and goes on to the end;
  if every probe fails, the run never leaves the loop.
\<close>

theorem retry_until_connected:
  fixes env :: "'f env"
  shows "((\<forall>j<N. probe env j \<noteq> None) \<and> probe env N = None \<longrightarrow>
            (\<exists>log r. seed_data env = Some (log, r) \<and> count_list log GetCollections = Suc N))
       \<and> ((\<forall>j. probe env j \<noteq> None) \<longrightarrow> seed_data env = None)"
proof (intro conjI impI)
  assume a: "(\<forall>j<N. probe env j \<noteq> None) \<and> probe env N = None"
  then obtain pre where pre: "seed_data env = Some (load_and_seed env pre)"
    and cnt: "count_list pre GetCollections = Suc N"
    using seed_data_connects [of N env] by blast
  obtain ex where ex: "fst (load_and_seed env pre) = pre @ ex" "GetCollections \<notin> set ex"
    using load_and_seed_prefix by blast
  have "count_list (fst (load_and_seed env pre)) GetCollections = Suc N"
    using ex cnt by (simp add: count_list_0_iff)
  with pre show "\<exists>log r. seed_data env = Some (log, r) \<and> count_list log GetCollections = Suc N"
    by (cases "load_and_seed env pre") auto
next
  assume "\<forall>j. probe env j \<noteq> None"
  then have "connect_loop (probe env) False 0 [Print Attempting :: 'f event] = None"
    by (rule connect_loop_diverges)
  then show "seed_data env = None"
    by (simp add: seed_data_def)
qed

theorem retry_until_connected_witness:
  "probe (env_of (JArr [rec_A, rec_B]) False) 0 \<noteq> None
   \<and> probe (env_of (JArr [rec_A, rec_B]) False) 1 \<noteq> None
   \<and> probe (env_of (JArr [rec_A, rec_B]) False) 2 = None
   \<and> (\<exists>log r. seed_data (env_of (JArr [rec_A, rec_B]) False) = Some (log, r)
         \<and> count_list log GetCollections = 3)
   \<and> probe env_down 0 \<noteq> None
   \<and> seed_data env_down = None"
proof -
  let ?E = "env_of (JArr [rec_A, rec_B]) False"
  have h1: "(\<forall>j<2. probe ?E j \<noteq> None) \<and> probe ?E 2 = None"
    by (simp add: env_of_def)
  have h2: "\<forall>j. probe env_down j \<noteq> None"
    by (simp add: env_down_def)
  from retry_until_connected [of 2 ?E] h1
  have a: "\<exists>log r. seed_data ?E = Some (log, r) \<and> count_list log GetCollections = 3"
    by (simp add: eval_nat_numeral)
  from retry_until_connected [of 0 env_down] h2
  have b: "seed_data env_down = None" by blast
  from h1 h2 a b show ?thesis by (simp add: env_of_def env_down_def)
qed

subsection \<open>C8\<close>

text \<open>
  Claim C8. Under the conditions of claim C1, the list passed to the one \<^verbatim>\<open>upsert\<close> call
  is as long as the array, and its \<open>i\<close>-th point is made from the \<open>i\<close>-th record: it has
  that record's \<^verbatim>\<open>id\<close>, its other fields as payload, and as vector what \<^verbatim>\<open>PointStruct\<close>
  holds for that record's \<^verbatim>\<open>vectors\<close>, which is the \<^verbatim>\<open>vectors\<close> value itself when that is a
  list of floats.
\<close>

theorem points_in_input_order:
  fixes env :: "'f env"
  assumes "probe env n = None"
    and "load_json env = Inr (JArr recs)" and "recs \<noteq> []"
    and "\<forall>r\<in>set recs. input_record (accepts env) d r"
    and "exists_reply env = Inr True \<or> (exists_reply env = Inr False \<and> create_reply env = None)"
  shows "\<exists>log res pts. seed_data env = Some (log, res)
           \<and> filter is_upsert log = [Upsert COLLECTION_NAME pts]
           \<and> length pts = length recs
           \<and> (\<forall>i<length recs. \<exists>kvs v. recs ! i = JObj kvs
                  \<and> map_of kvs ''id'' = Some (pid (pts ! i))
                  \<and> map_of kvs ''vectors'' = Some v
                  \<and> vector (pts ! i) = held_vector (convert env) v
                  \<and> (float_list v \<longrightarrow> vector (pts ! i) = v)
                  \<and> payload (pts ! i)
                      = JObj (filter (\<lambda>kv. fst kv \<noteq> ''id'' \<and> fst kv \<noteq> ''vectors'') kvs))"
proof -
  from seeding_run [OF assms] obtain pre pts
    where pts: "build_points (accepts env) (convert env) recs = Inr pts"
      and pre: "\<forall>e\<in>set pre. \<not> is_upsert e \<and> \<not> is_done e"
      and run: "seed_data env =
               Some (case upsert_reply env of
                       None \<Rightarrow> (pre @ [Upsert COLLECTION_NAME pts, Print (Done (length pts))], Inr ())
                     | Some e \<Rightarrow> (pre @ [Upsert COLLECTION_NAME pts], Inl e))"
    by blast
  have p: "filter is_upsert pre = []"
    using pre by (simp add: filter_empty_conv)
  obtain log res where lr: "seed_data env = Some (log, res)"
    and up: "filter is_upsert log = [Upsert COLLECTION_NAME pts]"
    using run p by (cases "upsert_reply env") auto
  have len: "length pts = length recs" using pts by (rule build_points_length)
  have "\<exists>kvs v. recs ! i = JObj kvs
           \<and> map_of kvs ''id'' = Some (pid (pts ! i))
           \<and> map_of kvs ''vectors'' = Some v
           \<and> vector (pts ! i) = held_vector (convert env) v
           \<and> (float_list v \<longrightarrow> vector (pts ! i) = v)
           \<and> payload (pts ! i) = JObj (filter (\<lambda>kv. fst kv \<noteq> ''id'' \<and> fst kv \<noteq> ''vectors'') kvs)"
    if "i < length recs" for i
  proof -
    from point_struct_Inr [OF build_points_nth [OF pts that]] obtain kvs v
      where k: "recs ! i = JObj kvs" "map_of kvs ''id'' = Some (pid (pts ! i))"
        "map_of kvs ''vectors'' = Some v" "vector (pts ! i) = held_vector (convert env) v"
        "payload (pts ! i) = JObj (filter (\<lambda>kv. fst kv \<noteq> ''id'' \<and> fst kv \<noteq> ''vectors'') kvs)"
      by blast
    from k(4) have "float_list v \<longrightarrow> vector (pts ! i) = v"
      by (simp add: held_vector_def)
    with k show ?thesis by blast
  qed
  with lr up len show ?thesis by blast
qed

theorem points_in_input_order_witness:
  "probe (env_of (JArr [rec_A, rec_B]) True) 2 = None
   \<and> load_json (env_of (JArr [rec_A, rec_B]) True) = Inr (JArr [rec_A, rec_B])
   \<and> input_record (accepts (env_of (JArr [rec_A, rec_B]) True)) 2 rec_A
   \<and> input_record (accepts (env_of (JArr [rec_A, rec_B]) True)) 2 rec_B
   \<and> exists_reply (env_of (JArr [rec_A, rec_B]) True) = Inr True
   \<and> (\<exists>log res pts. seed_data (env_of (JArr [rec_A, rec_B]) True) = Some (log, res)
         \<and> filter is_upsert log = [Upsert COLLECTION_NAME pts]
         \<and> length pts = 2
         \<and> pid (pts ! 0) = JInt 1 \<and> vector (pts ! 0) = JArr [JFloat ''0.1'', JFloat ''0.2'']
         \<and> pid (pts ! 1) = JInt 2 \<and> vector (pts ! 1) = JArr [JFloat ''0.3'', JFloat ''0.4''])"
proof -
  let ?E = "env_of (JArr [rec_A, rec_B]) True"
  have h1: "probe ?E 2 = None" by (simp add: env_of_def)
  have h2: "load_json ?E = Inr (JArr [rec_A, rec_B])" by (simp add: env_of_def)
  have h3: "[rec_A, rec_B] \<noteq> []" by simp
  have h4: "\<forall>r\<in>set [rec_A, rec_B]. input_record (accepts ?E) 2 r"
    by (simp add: input_record_def example_defs)
  have h5: "exists_reply ?E = Inr True \<or> (exists_reply ?E = Inr False \<and> create_reply ?E = None)"
    by (simp add: env_of_def)
  from points_in_input_order [OF h1 h2 h3 h4 h5] obtain log res pts
    where r: "seed_data ?E = Some (log, res)"
      "filter is_upsert log = [Upsert COLLECTION_NAME pts]" "length pts = length [rec_A, rec_B]"
    and o: "\<forall>i<length [rec_A, rec_B]. \<exists>kvs v. [rec_A, rec_B] ! i = JObj kvs
                  \<and> map_of kvs ''id'' = Some (pid (pts ! i))
                  \<and> map_of kvs ''vectors'' = Some v
                  \<and> vector (pts ! i) = held_vector (convert ?E) v
                  \<and> (float_list v \<longrightarrow> vector (pts ! i) = v)
                  \<and> payload (pts ! i)
                      = JObj (filter (\<lambda>kv. fst kv \<noteq> ''id'' \<and> fst kv \<noteq> ''vectors'') kvs)"
    by blast
  from o have "\<exists>kvs v. [rec_A, rec_B] ! 0 = JObj kvs \<and> map_of kvs ''id'' = Some (pid (pts ! 0))
      \<and> map_of kvs ''vectors'' = Some v \<and> (float_list v \<longrightarrow> vector (pts ! 0) = v)"
    by fastforce
  then have o0: "pid (pts ! 0) = JInt 1 \<and> vector (pts ! 0) = JArr [JFloat ''0.1'', JFloat ''0.2'']"
    by (auto simp: rec_A_def)
  from o have "\<exists>kvs v. [rec_A, rec_B] ! 1 = JObj kvs \<and> map_of kvs ''id'' = Some (pid (pts ! 1))
      \<and> map_of kvs ''vectors'' = Some v \<and> (float_list v \<longrightarrow> vector (pts ! 1) = v)"
    by fastforce
  then have o1: "pid (pts ! 1) = JInt 2 \<and> vector (pts ! 1) = JArr [JFloat ''0.3'', JFloat ''0.4'']"
    by (auto simp: rec_B_def)
  from r have r': "length pts = 2" by simp
  have h4': "input_record (accepts ?E) 2 rec_A \<and> input_record (accepts ?E) 2 rec_B"
    using h4 by simp
  have h5': "exists_reply ?E = Inr True" by (simp add: env_of_def)
  from h1 h2 h4' h5' r(1,2) r' o0 o1 show ?thesis by blast
qed

subsection \<open>C9\<close>

text \<open>
  Claim C9. \<^verbatim>\<open>len(data[0]['vectors'])\<close> is evaluated before \<^verbatim>\<open>collection_exists\<close> is
  called. So on an empty array, or an array whose first record has no \<^verbatim>\<open>vectors\<close>, a run
  whose connection loop ends stops with an error without any \<^verbatim>\<open>collection_exists\<close>,
  \<^verbatim>\<open>create_collection\<close> or \<^verbatim>\<open>upsert\<close> call, whatever the database would have answered.
\<close>

theorem size_read_before_existence_check:
  fixes env :: "'f env"
  assumes "probe env n = None" and "load_json env = Inr (JArr recs)"
    and "recs = [] \<or> (\<exists>kvs rest. recs = JObj kvs # rest \<and> map_of kvs ''vectors'' = None)"
  shows "\<exists>log e. seed_data env = Some (log, Inl e) \<and> (\<forall>ev\<in>set log. \<not> seeding_call ev)"
proof -
  from seed_data_reachable [OF assms(1)] obtain pre
    where pre: "seed_data env = Some (load_and_seed env pre)"
      and q: "\<forall>e\<in>set pre. \<not> seeding_call e \<and> \<not> is_done e" by blast
  from assms(3) obtain e where "first_vector_size (JArr recs) = Inl e"
    by (auto simp: first_vector_size_def)
  then have "load_and_seed env pre = (pre, Inl e)"
    using assms(2) by (simp add: load_and_seed_def)
  with pre q show ?thesis by auto
qed

theorem size_read_before_existence_check_witness:
  "probe (env_of (JArr [JObj [(''id'', JInt 7)]]) True) 2 = None
   \<and> load_json (env_of (JArr [JObj [(''id'', JInt 7)]]) True) = Inr (JArr [JObj [(''id'', JInt 7)]])
   \<and> map_of [(''id'', JInt 7 :: string json)] ''vectors'' = None
   \<and> exists_reply (env_of (JArr [JObj [(''id'', JInt 7)]]) True) = Inr True
   \<and> (\<exists>log e. seed_data (env_of (JArr [JObj [(''id'', JInt 7)]]) True) = Some (log, Inl e)
         \<and> (\<forall>ev\<in>set log. \<not> seeding_call ev))"
proof -
  let ?E = "env_of (JArr [JObj [(''id'', JInt 7)]]) True"
  have h1: "probe ?E 2 = None" by (simp add: env_of_def)
  have h2: "load_json ?E = Inr (JArr [JObj [(''id'', JInt 7)]])" by (simp add: env_of_def)
  have m: "map_of [(''id'', JInt 7 :: string json)] ''vectors'' = None" by simp
  then have h3: "[JObj [(''id'', JInt 7 :: string json)]] = []
      \<or> (\<exists>kvs rest. [JObj [(''id'', JInt 7 :: string json)]] = JObj kvs # rest
            \<and> map_of kvs ''vectors'' = None)"
    by blast
  have h4: "exists_reply ?E = Inr True" by (simp add: env_of_def)
  from size_read_before_existence_check [OF h1 h2 h3] h1 h2 m h4 show ?thesis by blast
qed

subsection \<open>C10\<close>

text \<open>
  Claim C10. Take two runs whose arrays hold, position by position, records with the same
  fields (whatever the order of the keys in each), with the same library conversion, and
  that both reach \<^verbatim>\<open>upsert\<close>. Whatever the probes, the existence check, the creation and
  the validation did in each, the two calls name the same collection and pass lists of the
  same length whose points agree, position by position, in identifier, vector and payload
  fields.
\<close>

theorem equal_records_give_equal_points:
  fixes env1 env2 :: "'f env"
  assumes "seed_data env1 = Some (log1, r1)" and "seed_data env2 = Some (log2, r2)"
    and "load_json env1 = Inr (JArr recs1)" and "load_json env2 = Inr (JArr recs2)"
    and "list_all2 same_record recs1 recs2"
    and "convert env1 = convert env2"
    and "Upsert nm1 pts1 \<in> set log1" and "Upsert nm2 pts2 \<in> set log2"
  shows "nm1 = nm2 \<and> list_all2 same_point pts1 pts2"
proof -
  from upsert_in_log [OF assms(1,7)] assms(3)
  have a: "nm1 = COLLECTION_NAME" "build_points (accepts env1) (convert env1) recs1 = Inr pts1"
    by auto
  from upsert_in_log [OF assms(2,8)] assms(4)
  have b: "nm2 = COLLECTION_NAME" "build_points (accepts env2) (convert env2) recs2 = Inr pts2"
    by auto
  from b(2) assms(6) have "build_points (accepts env2) (convert env1) recs2 = Inr pts2"
    by simp
  from build_points_same_records [OF assms(5) a(2) this] a(1) b(1)
  show ?thesis by simp
qed

theorem equal_records_give_equal_points_witness:
  "seed_data (env_of (JArr [rec_C]) False) =
      Some ([Print Attempting, GetCollections, Print (Failed ''refused''), Sleep 3,
          GetCollections, Print (Failed ''refused''), Sleep 3, GetCollections, Print Connected,
          CollectionExists ''nt-cctv-vehicles'', CreateCollection ''nt-cctv-vehicles'' 2 Cosine,
          Upsert ''nt-cctv-vehicles''
            [\<lparr>pid = JInt 3, vector = JArr [JFloat ''0.5'', JFloat ''0.6''],
               payload = JObj [(''cam'', JStr ''C''), (''plate'', JStr ''XY'')]\<rparr>],
          Print (Done 1)], Inr ())
   \<and> seed_data (env_of (JArr [rec_C_reordered]) True) =
      Some ([Print Attempting, GetCollections, Print (Failed ''refused''), Sleep 3,
          GetCollections, Print (Failed ''refused''), Sleep 3, GetCollections, Print Connected,
          CollectionExists ''nt-cctv-vehicles'',
          Upsert ''nt-cctv-vehicles''
            [\<lparr>pid = JInt 3, vector = JArr [JFloat ''0.5'', JFloat ''0.6''],
               payload = JObj [(''plate'', JStr ''XY''), (''cam'', JStr ''C'')]\<rparr>],
          Print (Done 1)], Inr ())
   \<and> list_all2 same_record [rec_C] [rec_C_reordered]
   \<and> convert (env_of (JArr [rec_C]) False) = convert (env_of (JArr [rec_C_reordered]) True)
   \<and> list_all2 same_point
         [\<lparr>pid = JInt 3, vector = JArr [JFloat ''0.5'', JFloat ''0.6''],
               payload = JObj [(''cam'', JStr ''C''), (''plate'', JStr ''XY'')]\<rparr>]
         [\<lparr>pid = JInt 3, vector = JArr [JFloat ''0.5'', JFloat ''0.6''],
               payload = JObj [(''plate'', JStr ''XY''), (''cam'', JStr ''C'')]\<rparr>]"
proof -
  let ?EA = "env_of (JArr [rec_C]) False"
  let ?EB = "env_of (JArr [rec_C_reordered]) True"
  let ?P1 = "[\<lparr>pid = JInt 3, vector = JArr [JFloat ''0.5'', JFloat ''0.6''],
               payload = JObj [(''cam'', JStr ''C''), (''plate'', JStr ''XY'')]\<rparr>] :: string point list"
  let ?P2 = "[\<lparr>pid = JInt 3, vector = JArr [JFloat ''0.5'', JFloat ''0.6''],
               payload = JObj [(''plate'', JStr ''XY''), (''cam'', JStr ''C'')]\<rparr>] :: string point list"
  let ?L1 = "[Print Attempting, GetCollections, Print (Failed ''refused''), Sleep 3,
          GetCollections, Print (Failed ''refused''), Sleep 3, GetCollections, Print Connected,
          CollectionExists ''nt-cctv-vehicles'', CreateCollection ''nt-cctv-vehicles'' 2 Cosine,
          Upsert ''nt-cctv-vehicles''
            [\<lparr>pid = JInt 3, vector = JArr [JFloat ''0.5'', JFloat ''0.6''],
               payload = JObj [(''cam'', JStr ''C''), (''plate'', JStr ''XY'')]\<rparr>],
          Print (Done 1)] :: string event list"
  let ?L2 = "[Print Attempting, GetCollections, Print (Failed ''refused''), Sleep 3,
          GetCollections, Print (Failed ''refused''), Sleep 3, GetCollections, Print Connected,
          CollectionExists ''nt-cctv-vehicles'',
          Upsert ''nt-cctv-vehicles''
            [\<lparr>pid = JInt 3, vector = JArr [JFloat ''0.5'', JFloat ''0.6''],
               payload = JObj [(''plate'', JStr ''XY''), (''cam'', JStr ''C'')]\<rparr>],
          Print (Done 1)] :: string event list"
  have h1: "seed_data ?EA = Some (?L1, Inr ())"
    by (simp add: run_defs example_defs COLLECTION_NAME_def)
  have h2: "seed_data ?EB = Some (?L2, Inr ())"
    by (simp add: run_defs example_defs COLLECTION_NAME_def)
  have h3: "load_json ?EA = Inr (JArr [rec_C])" by (simp add: env_of_def)
  have h4: "load_json ?EB = Inr (JArr [rec_C_reordered])" by (simp add: env_of_def)
  have h5: "list_all2 same_record [rec_C] [rec_C_reordered]"
    by (simp add: same_fields_def rec_C_def rec_C_reordered_def)
  have h6: "convert ?EA = convert ?EB" by (simp add: env_of_def)
  have h7: "Upsert COLLECTION_NAME ?P1 \<in> set ?L1" by (simp add: COLLECTION_NAME_def)
  have h8: "Upsert COLLECTION_NAME ?P2 \<in> set ?L2" by (simp add: COLLECTION_NAME_def)
  from equal_records_give_equal_points [OF h1 h2 h3 h4 h5 h6 h7 h8] h1 h2 h5 h6
  show ?thesis by blast
qed

end
